theory Spec2Isabelle
  imports
    Main
    "HOL-Library.Finite_Map"
    "HOL-Library.Char_ord"
    "HOL-Library.List_Lexorder"
    "HOL-Library.Sublist"
begin

section \<open>The key-value REST server of rest.go\<close>

text \<open>
  The repository holds two versions of one small HTTP server. \<^verbatim>\<open>rest.go\<close> keeps its
  entries in a global \<^verbatim>\<open>store\<close> (a map guarded by a \<^verbatim>\<open>sync.RWMutex\<close>); the second,
  unnamed file (part 000) is the same program with a bare global map and no lock. Both
  register the handlers \<^verbatim>\<open>show\<close> and \<^verbatim>\<open>update\<close> with the router.

  A handler is modelled as a function from the response writer, the request, the path
  parameters and the current value of the global store to the new response writer and
  the new store. Strings are byte lists, as Go's are.
\<close>

subsection \<open>The read-write lock\<close>

text \<open>
  \<^verbatim>\<open>sync.RWMutex\<close>, seen from one goroutine that runs alone: the lock is held by a number
  of readers or by one writer. Acquiring a lock that is not available would wait for a
  release; with no other goroutine to release it, the wait never ends, which is the
  fault \<open>Deadlock\<close>. Releasing a lock that is not held is a fatal error of the Go
  runtime.
\<close>

record RWMutex =
  readers :: nat
  writer :: bool

datatype fault = Deadlock | UnlockOfUnlocked

definition RLock :: "RWMutex \<Rightarrow> fault + RWMutex" where
  "RLock mu = (if writer mu then Inl Deadlock else Inr (mu\<lparr>readers := Suc (readers mu)\<rparr>))"

definition RUnlock :: "RWMutex \<Rightarrow> fault + RWMutex" where
  "RUnlock mu =
     (if readers mu = 0 then Inl UnlockOfUnlocked else Inr (mu\<lparr>readers := readers mu - 1\<rparr>))"

definition Lock :: "RWMutex \<Rightarrow> fault + RWMutex" where
  "Lock mu =
     (if writer mu \<or> readers mu \<noteq> 0 then Inl Deadlock else Inr (mu\<lparr>writer := True\<rparr>))"

definition Unlock :: "RWMutex \<Rightarrow> fault + RWMutex" where
  "Unlock mu = (if writer mu then Inr (mu\<lparr>writer := False\<rparr>) else Inl UnlockOfUnlocked)"

definition unlocked :: "RWMutex \<Rightarrow> bool" where
  "unlocked mu = (readers mu = 0 \<and> \<not> writer mu)"

subsection \<open>The store\<close>

text \<open>
  \<^verbatim>\<open>type store struct { data map[string]string; m sync.RWMutex }\<close>. A Go map is a
  finite map. The global \<^verbatim>\<open>s\<close> starts with an empty map and a free lock.
\<close>

record store =
  data :: "(string, string) fmap"
  m :: RWMutex

definition s_init :: store where
  "s_init = \<lparr>data = fmempty, m = \<lparr>readers = 0, writer = False\<rparr>\<rparr>"

text \<open>The index expression \<^verbatim>\<open>data[k]\<close>: the zero value, the empty string, for a missing key.\<close>

definition index :: "(string, string) fmap \<Rightarrow> string \<Rightarrow> string" where
  "index d k = (case fmlookup d k of None \<Rightarrow> [] | Some v \<Rightarrow> v)"

subsection \<open>Formatting\<close>

text \<open>
  \<^verbatim>\<open>fmt\<close> prints a map under \<^verbatim>\<open>%v\<close> as \<^verbatim>\<open>map[k1:v1 k2:v2]\<close>: each entry as key,
  colon, value, with one space between entries, and a string as its bytes, unquoted.
  The entries come in the order of their keys (\<^verbatim>\<open>fmt\<close> sorts them since Go 1.12;
  before that the order was the map's iteration order). Strings are compared byte by
  byte, a proper prefix before its extensions. What is proved below about the listing
  uses only which entries it holds, not their order.
\<close>

definition sorted_entries :: "(string, string) fmap \<Rightarrow> (string \<times> string) list" where
  "sorted_entries d = map (\<lambda>k. (k, index d k)) (sorted_list_of_fset (fmdom d))"

fun fmt_entries :: "(string \<times> string) list \<Rightarrow> string" where
  "fmt_entries [] = []"
| "fmt_entries [(k, v)] = k @ '':'' @ v"
| "fmt_entries ((k, v) # e # es) = k @ '':'' @ v @ '' '' @ fmt_entries (e # es)"

definition fmt_map :: "(string, string) fmap \<Rightarrow> string" where
  "fmt_map d = ''map['' @ fmt_entries (sorted_entries d) @ '']''"

subsection \<open>Request, path parameters, response writer\<close>

text \<open>
  The request object, as far as a handler could read it. The path parameters are the
  router's list of key-value pairs; \<^verbatim>\<open>ByName\<close> returns the value of the first pair with
  the given key and the empty string when there is none. The response writer is the
  body written so far; \<^verbatim>\<open>Fprintf\<close> appends the formatted text to it.
\<close>

record Request =
  Method :: string
  URL :: string
  Header :: "(string \<times> string list) list"
  Body :: string

type_synonym Params = "(string \<times> string) list"

type_synonym ResponseWriter = string

fun ByName :: "Params \<Rightarrow> string \<Rightarrow> string" where
  "ByName [] name = []"
| "ByName ((key, val) # ps) name = (if key = name then val else ByName ps name)"

definition Fprintf :: "ResponseWriter \<Rightarrow> string \<Rightarrow> ResponseWriter" where
  "Fprintf w text = w @ text"

subsection \<open>The handlers of rest.go\<close>

text \<open>
  \<^verbatim>\<open>show\<close>: with no key in the path, the whole map is printed under the read lock;
  otherwise the entry of the key is. The format strings are
  \<^verbatim>\<open>"Read list: %v"\<close> and \<^verbatim>\<open>"Read entry: s.data[%s] = %s"\<close>.
\<close>

definition show_handler ::
  "ResponseWriter \<Rightarrow> Request \<Rightarrow> Params \<Rightarrow> store \<Rightarrow> fault + ResponseWriter \<times> store" where
  "show_handler w r p st =
     (let k = ByName p ''key'' in
      if k = [] then
        (case RLock (m st) of
           Inl e \<Rightarrow> Inl e
         | Inr m1 \<Rightarrow>
             (let w1 = Fprintf w (''Read list: '' @ fmt_map (data st)) in
              case RUnlock m1 of
                Inl e \<Rightarrow> Inl e
              | Inr m2 \<Rightarrow> Inr (w1, st\<lparr>m := m2\<rparr>)))
      else
        (case RLock (m st) of
           Inl e \<Rightarrow> Inl e
         | Inr m1 \<Rightarrow>
             (let w1 = Fprintf w (''Read entry: s.data['' @ k @ ''] = '' @ index (data st) k) in
              case RUnlock m1 of
                Inl e \<Rightarrow> Inl e
              | Inr m2 \<Rightarrow> Inr (w1, st\<lparr>m := m2\<rparr>))))"

text \<open>
  \<^verbatim>\<open>update\<close>: the entry is written under the write lock, and the answer
  \<^verbatim>\<open>"Updated: s.data[%s] = %s"\<close> is printed after the lock is released.
\<close>

definition update ::
  "ResponseWriter \<Rightarrow> Request \<Rightarrow> Params \<Rightarrow> store \<Rightarrow> fault + ResponseWriter \<times> store" where
  "update w r p st =
     (let k = ByName p ''key'';
          v = ByName p ''value'' in
      case Lock (m st) of
        Inl e \<Rightarrow> Inl e
      | Inr m1 \<Rightarrow>
          (let d1 = fmupd k v (data st) in
           case Unlock m1 of
             Inl e \<Rightarrow> Inl e
           | Inr m2 \<Rightarrow>
               Inr (Fprintf w (''Updated: s.data['' @ k @ ''] = '' @ v),
                    st\<lparr>data := d1, m := m2\<rparr>)))"

subsection \<open>The handlers of the version without a lock (part 000)\<close>

text \<open>
  There the global is the bare map \<^verbatim>\<open>data\<close>, which \<^verbatim>\<open>main\<close> sets to an empty map
  before it registers the handlers. The format strings are \<^verbatim>\<open>"Read list: %v"\<close>,
  \<^verbatim>\<open>"Read entry: data[%s] = %s"\<close> and \<^verbatim>\<open>"Updated: data[%s] = %s"\<close>, and \<^verbatim>\<open>update\<close>
  prints the value it reads back from the map.
\<close>

definition show_handler_part0 ::
  "ResponseWriter \<Rightarrow> Request \<Rightarrow> Params \<Rightarrow> (string, string) fmap
     \<Rightarrow> ResponseWriter \<times> (string, string) fmap" where
  "show_handler_part0 w r p d =
     (let k = ByName p ''key'' in
      if k = [] then (Fprintf w (''Read list: '' @ fmt_map d), d)
      else (Fprintf w (''Read entry: data['' @ k @ ''] = '' @ index d k), d))"

definition update_part0 ::
  "ResponseWriter \<Rightarrow> Request \<Rightarrow> Params \<Rightarrow> (string, string) fmap
     \<Rightarrow> ResponseWriter \<times> (string, string) fmap" where
  "update_part0 w r p d =
     (let k = ByName p ''key'';
          v = ByName p ''value'';
          d1 = fmupd k v d in
      (Fprintf w (''Updated: data['' @ k @ ''] = '' @ index d1 k), d1))"

subsection \<open>Requests served one after the other\<close>

text \<open>
  The routes of \<^verbatim>\<open>main\<close> send \<^verbatim>\<open>GET /list\<close> and \<^verbatim>\<open>GET /entry/:key\<close> to \<^verbatim>\<open>show\<close> and
  \<^verbatim>\<open>PUT /entry/:key/:value\<close> to \<^verbatim>\<open>update\<close>. A call is a handler with the request and
  the parameters the router hands to it; each call gets a response writer of its own,
  with nothing written yet, and the calls share the store.
\<close>

datatype call = CallShow Request Params | CallUpdate Request Params

fun serve :: "call \<Rightarrow> store \<Rightarrow> fault + ResponseWriter \<times> store" where
  "serve (CallShow r p) st = show_handler [] r p st"
| "serve (CallUpdate r p) st = update [] r p st"

fun serve_all :: "call list \<Rightarrow> store \<Rightarrow> fault + ResponseWriter list \<times> store" where
  "serve_all [] st = Inr ([], st)"
| "serve_all (c # cs) st =
     (case serve c st of
        Inl e \<Rightarrow> Inl e
      | Inr (b, st1) \<Rightarrow>
          (case serve_all cs st1 of
             Inl e \<Rightarrow> Inl e
           | Inr (bs, st2) \<Rightarrow> Inr (b # bs, st2)))"

text \<open>Whether a call is an update of the key \<open>k\<close>.\<close>

fun writes_key :: "string \<Rightarrow> call \<Rightarrow> bool" where
  "writes_key k (CallShow r p) = False"
| "writes_key k (CallUpdate r p) = (ByName p ''key'' = k)"

text \<open>
  The parameters the router extracts for the routes \<^verbatim>\<open>/entry/:key\<close> and
  \<^verbatim>\<open>/entry/:key/:value\<close>; for \<^verbatim>\<open>/list\<close> the list is empty.
\<close>

abbreviation entry_params :: "string \<Rightarrow> Params" where
  "entry_params k \<equiv> [(''key'', k)]"

abbreviation entry_value_params :: "string \<Rightarrow> string \<Rightarrow> Params" where
  "entry_value_params k v \<equiv> [(''key'', k), (''value'', v)]"

text \<open>Concrete requests for the examples.\<close>

definition get_req :: "string \<Rightarrow> Request" where
  "get_req path = \<lparr>Method = ''GET'', URL = path, Header = [], Body = []\<rparr>"

definition put_req :: "string \<Rightarrow> Request" where
  "put_req path =
     \<lparr>Method = ''PUT'', URL = path, Header = [(''Accept'', [''*/*''])], Body = ''ignored''\<rparr>"

subsection \<open>Handlers running concurrently\<close>

text \<open>
  The HTTP server runs every handler call in a goroutine of its own, and the goroutines
  share the store. A goroutine is a call, the point its handler has reached and the
  response written so far. The points are those of the handlers of \<^verbatim>\<open>rest.go\<close>, in the
  order of their statements: entered; the lock taken; for \<^verbatim>\<open>update\<close> the assignment
  \<^verbatim>\<open>s.data[k] = v\<close> under way; the map access done, the lock still held; for
  \<^verbatim>\<open>update\<close> the lock released and the answer not yet printed; returned.

  A write to a Go map is not one atomic action. Here it takes two steps: it reads the
  table, and it stores the table it read with the entry set. Should another write
  come between the two steps, its entry is gone once the table is stored.
\<close>

datatype point = Entered | Holding | Storing "(string, string) fmap" | Accessed | Released | Returned

record goroutine =
  job :: call
  pc :: point
  resp :: ResponseWriter

text \<open>
  One step of one goroutine on the shared store; \<open>None\<close> when the goroutine cannot move:
  it has returned, it waits for the lock, or the runtime stops it for releasing a lock
  that is not held. For \<^verbatim>\<open>show\<close> the test \<^verbatim>\<open>k == ""\<close> chooses what is printed; both
  branches take the read lock, print, and release it.
\<close>

definition advance :: "goroutine \<Rightarrow> store \<Rightarrow> (goroutine \<times> store) option" where
  "advance g st =
     (case job g of
        CallShow r p \<Rightarrow>
          (let k = ByName p ''key'' in
           case pc g of
             Entered \<Rightarrow>
               (case RLock (m st) of
                  Inl e \<Rightarrow> None
                | Inr m1 \<Rightarrow> Some (g\<lparr>pc := Holding\<rparr>, st\<lparr>m := m1\<rparr>))
           | Holding \<Rightarrow>
               Some (g\<lparr>pc := Accessed,
                       resp := Fprintf (resp g)
                                 (if k = [] then ''Read list: '' @ fmt_map (data st)
                                  else ''Read entry: s.data['' @ k @ ''] = '' @ index (data st) k)\<rparr>,
                     st)
           | Accessed \<Rightarrow>
               (case RUnlock (m st) of
                  Inl e \<Rightarrow> None
                | Inr m2 \<Rightarrow> Some (g\<lparr>pc := Returned\<rparr>, st\<lparr>m := m2\<rparr>))
           | Storing d \<Rightarrow> None
           | Released \<Rightarrow> None
           | Returned \<Rightarrow> None)
      | CallUpdate r p \<Rightarrow>
          (let k = ByName p ''key'';
               v = ByName p ''value'' in
           case pc g of
             Entered \<Rightarrow>
               (case Lock (m st) of
                  Inl e \<Rightarrow> None
                | Inr m1 \<Rightarrow> Some (g\<lparr>pc := Holding\<rparr>, st\<lparr>m := m1\<rparr>))
           | Holding \<Rightarrow> Some (g\<lparr>pc := Storing (data st)\<rparr>, st)
           | Storing d \<Rightarrow> Some (g\<lparr>pc := Accessed\<rparr>, st\<lparr>data := fmupd k v d\<rparr>)
           | Accessed \<Rightarrow>
               (case Unlock (m st) of
                  Inl e \<Rightarrow> None
                | Inr m2 \<Rightarrow> Some (g\<lparr>pc := Released\<rparr>, st\<lparr>m := m2\<rparr>))
           | Released \<Rightarrow>
               Some (g\<lparr>pc := Returned,
                       resp := Fprintf (resp g) (''Updated: s.data['' @ k @ ''] = '' @ v)\<rparr>,
                     st)
           | Returned \<Rightarrow> None))"

text \<open>
  An execution follows a schedule: the list of the goroutines that move, in order. A
  schedule that names a goroutine which cannot move is no execution.
\<close>

fun run :: "nat list \<Rightarrow> goroutine list \<Rightarrow> store \<Rightarrow> (goroutine list \<times> store) option" where
  "run [] gs st = Some (gs, st)"
| "run (i # sched) gs st =
     (if i < length gs then
        (case advance (gs ! i) st of
           None \<Rightarrow> None
         | Some (g, st1) \<Rightarrow> run sched (gs[i := g]) st1)
      else None)"

definition spawn :: "call list \<Rightarrow> goroutine list" where
  "spawn jobs = map (\<lambda>c. \<lparr>job = c, pc = Entered, resp = []\<rparr>) jobs"















section \<open>What the handlers compute\<close>

lemma show_handler_result:
  assumes "\<not> writer (m st)"
  shows "show_handler w r p st =
           Inr (w @ (if ByName p ''key'' = [] then ''Read list: '' @ fmt_map (data st)
                     else ''Read entry: s.data['' @ ByName p ''key'' @ ''] = ''
                            @ index (data st) (ByName p ''key'')),
                st)"
  using assms by (simp add: show_handler_def RLock_def RUnlock_def Fprintf_def Let_def)

lemma show_handler_waits:
  assumes "writer (m st)"
  shows "show_handler w r p st = Inl Deadlock"
  using assms by (simp add: show_handler_def RLock_def Let_def)

lemma update_result:
  assumes "unlocked (m st)"
  shows "update w r p st =
           Inr (w @ ''Updated: s.data['' @ ByName p ''key'' @ ''] = '' @ ByName p ''value'',
                st\<lparr>data := fmupd (ByName p ''key'') (ByName p ''value'') (data st)\<rparr>)"
  using assms
  by (simp add: update_def Lock_def Unlock_def Fprintf_def Let_def unlocked_def)

lemma update_waits:
  assumes "\<not> unlocked (m st)"
  shows "update w r p st = Inl Deadlock"
  using assms by (auto simp add: update_def Lock_def Let_def unlocked_def)

section \<open>Calls in sequence\<close>

lemma serve_unlocked:
  assumes "unlocked (m st)"
  shows "\<exists>b st'. serve c st = Inr (b, st') \<and> m st' = m st"
proof (cases c)
  case (CallShow r p)
  from assms have "\<not> writer (m st)" by (simp add: unlocked_def)
  then show ?thesis using CallShow by (simp add: show_handler_result)
next
  case (CallUpdate r p)
  then show ?thesis using assms by (simp add: update_result)
qed

lemma serve_lookup_other:
  assumes "serve c st = Inr (b, st')" and "\<not> writes_key k c"
  shows "fmlookup (data st') k = fmlookup (data st) k"
proof (cases c)
  case (CallShow r p)
  show ?thesis
  proof (cases "writer (m st)")
    case True
    then show ?thesis using assms CallShow by (simp add: show_handler_waits)
  next
    case False
    then show ?thesis using assms CallShow by (auto simp add: show_handler_result)
  qed
next
  case (CallUpdate r p)
  show ?thesis
  proof (cases "unlocked (m st)")
    case True
    then show ?thesis using assms CallUpdate by (auto simp add: update_result)
  next
    case False
    then show ?thesis using assms CallUpdate by (simp add: update_waits)
  qed
qed

lemma serve_all_unlocked:
  assumes "unlocked (m st)"
  shows "\<exists>bs st'. serve_all cs st = Inr (bs, st') \<and> m st' = m st \<and> length bs = length cs"
  using assms
proof (induction cs arbitrary: st)
  case Nil
  then show ?case by simp
next
  case (Cons c cs)
  from serve_unlocked [OF Cons.prems, of c]
  obtain b st1 where c: "serve c st = Inr (b, st1)" and m1: "m st1 = m st" by blast
  from Cons.prems m1 have "unlocked (m st1)" by simp
  from Cons.IH [OF this]
  obtain bs st2 where cs: "serve_all cs st1 = Inr (bs, st2)" and m2: "m st2 = m st1"
    and len: "length bs = length cs" by blast
  show ?case using c cs m1 m2 len by simp
qed

lemma serve_all_lookup_other:
  assumes "serve_all cs st = Inr (bs, st')" and "\<forall>c \<in> set cs. \<not> writes_key k c"
  shows "fmlookup (data st') k = fmlookup (data st) k"
  using assms
proof (induction cs arbitrary: st bs)
  case Nil
  then show ?case by simp
next
  case (Cons c cs)
  from Cons.prems(1) obtain b st1 bs1 where c: "serve c st = Inr (b, st1)"
    and cs: "serve_all cs st1 = Inr (bs1, st')"
    by (auto split: sum.splits prod.splits)
  from Cons.prems(2) have "\<not> writes_key k c" and rest: "\<forall>c \<in> set cs. \<not> writes_key k c"
    by simp_all
  from serve_lookup_other [OF c this(1)] Cons.IH [OF cs rest]
  show ?case by simp
qed

lemma serve_all_append:
  "serve_all (cs @ ds) st =
     (case serve_all cs st of
        Inl e \<Rightarrow> Inl e
      | Inr (bs, st1) \<Rightarrow>
          (case serve_all ds st1 of
             Inl e \<Rightarrow> Inl e
           | Inr (bs', st2) \<Rightarrow> Inr (bs @ bs', st2)))"
  by (induction cs arbitrary: st) (auto split: sum.splits prod.splits)

section \<open>The listing shows every entry\<close>

lemma sublist_after_prefix:
  assumes "sublist xs ys"
  shows "sublist xs (ps @ ys)"
proof -
  from assms obtain us vs where "ys = us @ xs @ vs" by (auto simp: sublist_def)
  then have "ps @ ys = (ps @ us) @ xs @ vs" by simp
  then show ?thesis unfolding sublist_def by blast
qed

lemma entry_in_fmt_entries:
  assumes "(k, v) \<in> set es"
  shows "sublist (k @ '':'' @ v) (fmt_entries es)"
  using assms
proof (induction es rule: fmt_entries.induct)
  case 1
  then show ?case by simp
next
  case (2 k' v')
  then show ?case by simp
next
  case (3 k' v' e es)
  show ?case
  proof (cases "(k, v) = (k', v')")
    case True
    have "sublist (k' @ '':'' @ v') ((k' @ '':'' @ v') @ ('' '' @ fmt_entries (e # es)))"
      by (rule sublist_append_rightI)
    then show ?thesis using True by simp
  next
    case False
    with "3.prems" have "(k, v) \<in> set (e # es)" by auto
    from "3.IH" [OF this]
    have "sublist (k @ '':'' @ v) ((k' @ '':'' @ v' @ '' '') @ fmt_entries (e # es))"
      by (rule sublist_after_prefix)
    then show ?thesis by simp
  qed
qed

lemma entry_in_sorted_entries:
  assumes "fmlookup d k = Some v"
  shows "(k, v) \<in> set (sorted_entries d)"
proof -
  from assms have "k |\<in>| fmdom d" by (rule fmdomI)
  then have "k \<in> set (sorted_list_of_fset (fmdom d))" by simp
  then have "(k, index d k) \<in> set (sorted_entries d)"
    unfolding sorted_entries_def by simp
  moreover from assms have "index d k = v" by (simp add: index_def)
  ultimately show ?thesis by simp
qed

lemma entry_in_fmt_map:
  assumes "fmlookup d k = Some v"
  shows "sublist (k @ '':'' @ v) (fmt_map d)"
proof -
  have "sublist (k @ '':'' @ v) (fmt_entries (sorted_entries d))"
    using assms by (intro entry_in_fmt_entries entry_in_sorted_entries)
  then have "sublist (k @ '':'' @ v) (fmt_entries (sorted_entries d) @ '']'')"
    by (simp add: sublist_append)
  then show ?thesis unfolding fmt_map_def by (rule sublist_after_prefix)
qed

section \<open>Executions of concurrent handlers\<close>

























subsection \<open>Each step keeps the configuration consistent\<close>
















subsection \<open>No execution gets stuck\<close>







lemma run_alone_update:
  assumes "unlocked (m st)"
  shows "\<exists>w' st'. update w r p st = Inr (w', st')
           \<and> run [0, 0, 0, 0, 0] [\<lparr>job = CallUpdate r p, pc = Entered, resp = w\<rparr>] st
               = Some ([\<lparr>job = CallUpdate r p, pc = Returned, resp = w'\<rparr>], st')"
  using assms
  by (simp add: update_result advance_def Lock_def Unlock_def unlocked_def Fprintf_def Let_def)

lemma run_alone_show:
  assumes "\<not> writer (m st)"
  shows "\<exists>w' st'. show_handler w r p st = Inr (w', st')
           \<and> run [0, 0, 0] [\<lparr>job = CallShow r p, pc = Entered, resp = w\<rparr>] st
               = Some ([\<lparr>job = CallShow r p, pc = Returned, resp = w'\<rparr>], st')"
  using assms
  by (simp add: show_handler_result advance_def RLock_def RUnlock_def Fprintf_def Let_def)

section \<open>The session of the source's closing comment\<close>

text \<open>
  The \<^verbatim>\<open>curl\<close> calls listed at the end of \<^verbatim>\<open>rest.go\<close>, served in that order by a
  freshly started server: the bodies of the five responses and the store afterwards.
\<close>

lemma curl_session:
  "serve_all [CallUpdate (put_req ''/entry/first/hello'') (entry_value_params ''first'' ''hello''),
              CallUpdate (put_req ''/entry/second/hi'') (entry_value_params ''second'' ''hi''),
              CallShow (get_req ''/list'') [],
              CallShow (get_req ''/entry/first'') (entry_params ''first''),
              CallShow (get_req ''/entry/second'') (entry_params ''second'')] s_init
     = Inr ([''Updated: s.data[first] = hello'',
             ''Updated: s.data[second] = hi'',
             ''Read list: map[first:hello second:hi]'',
             ''Read entry: s.data[first] = hello'',
             ''Read entry: s.data[second] = hi''],
            \<lparr>data = fmupd ''second'' ''hi'' (fmupd ''first'' ''hello'' fmempty),
             m = \<lparr>readers = 0, writer = False\<rparr>\<rparr>)"
  by code_simp

section \<open>The properties of the handlers\<close>

subsection \<open>Reading back the last write\<close>

text \<open>
  With the empty key \<^verbatim>\<open>show\<close> answers with the listing, and the listing does not tell
  which value the empty key has: after \<^verbatim>\<open>update("", "1")\<close> and \<^verbatim>\<open>update("a", "2")\<close> the
  body of \<^verbatim>\<open>show("")\<close> is the same as after \<^verbatim>\<open>update("", "1 a:2")\<close> alone.
\<close>

theorem update_then_show_reads_back_counterexample:
  "serve_all [CallUpdate (put_req ''/entry//1'') (entry_value_params [] ''1''),
              CallUpdate (put_req ''/entry/a/2'') (entry_value_params ''a'' ''2''),
              CallShow (get_req ''/list'') (entry_params [])] s_init
     = Inr ([''Updated: s.data[] = 1'', ''Updated: s.data[a] = 2'', ''Read list: map[:1 a:2]''],
            \<lparr>data = fmupd ''a'' ''2'' (fmupd [] ''1'' fmempty),
             m = \<lparr>readers = 0, writer = False\<rparr>\<rparr>)
   \<and> serve_all [CallUpdate (put_req ''/entry//1 a:2'') (entry_value_params [] ''1 a:2''),
                CallShow (get_req ''/list'') (entry_params [])] s_init
     = Inr ([''Updated: s.data[] = 1 a:2'', ''Read list: map[:1 a:2]''],
            \<lparr>data = fmupd [] ''1 a:2'' fmempty, m = \<lparr>readers = 0, writer = False\<rparr>\<rparr>)
   \<and> ''1'' \<noteq> ''1 a:2''
   \<and> ''Read list: map[:1 a:2]'' \<noteq> ''Read entry: s.data[] = 1''"
  by code_simp

text \<open>
  C1. Last write wins, for a key that is not empty. Take any sequence of calls in which
  \<^verbatim>\<open>update(k, v)\<close> is the most recent update of the key \<open>k\<close>: any calls before it, and
  after it only calls that do not update \<open>k\<close>. Served from a store whose lock is free,
  the sequence runs to its end, the store then holds \<open>v\<close> under \<open>k\<close>, and \<^verbatim>\<open>show(k)\<close>
  returns the entry line of \<open>k\<close> with the value \<open>v\<close>.
\<close>

theorem update_then_show_reads_back:
  assumes "unlocked (m st)"
    and "ByName p ''key'' = k"
    and "ByName p ''value'' = v"
    and "\<forall>c \<in> set later. \<not> writes_key k c"
    and "ByName q ''key'' = k"
    and "k \<noteq> []"
  shows "\<exists>bs st'.
           serve_all (earlier @ CallUpdate r p # later) st = Inr (bs, st')
           \<and> fmlookup (data st') k = Some v
           \<and> show_handler w r' q st' = Inr (w @ ''Read entry: s.data['' @ k @ ''] = '' @ v, st')"
proof -
  from serve_all_unlocked [OF assms(1), of earlier]
  obtain bs1 st1 where e: "serve_all earlier st = Inr (bs1, st1)" and m1: "m st1 = m st"
    by blast
  define st2 where "st2 = st1\<lparr>data := fmupd k v (data st1)\<rparr>"
  from assms(1) m1 have u1: "unlocked (m st1)" by simp
  have upd: "serve (CallUpdate r p) st1 = Inr (''Updated: s.data['' @ k @ ''] = '' @ v, st2)"
    using update_result [OF u1, of "[]" r p] assms(2,3) by (simp add: st2_def)
  have u2: "unlocked (m st2)" using u1 by (simp add: st2_def)
  from serve_all_unlocked [OF u2, of later]
  obtain bs3 st3 where l: "serve_all later st2 = Inr (bs3, st3)" and m3: "m st3 = m st2"
    by blast
  have "fmlookup (data st3) k = fmlookup (data st2) k"
    using l assms(4) by (rule serve_all_lookup_other)
  then have look: "fmlookup (data st3) k = Some v" by (simp add: st2_def)
  have run: "serve_all (earlier @ CallUpdate r p # later) st =
               Inr (bs1 @ (''Updated: s.data['' @ k @ ''] = '' @ v) # bs3, st3)"
    using e upd l by (simp add: serve_all_append)
  from u2 m3 have "\<not> writer (m st3)" by (simp add: unlocked_def)
  from show_handler_result [OF this, of w r' q]
  have shw: "show_handler w r' q st3 = Inr (w @ ''Read entry: s.data['' @ k @ ''] = '' @ v, st3)"
    using assms(5,6) look by (simp add: index_def)
  from run look shw show ?thesis by blast
qed

theorem update_then_show_reads_back_witness:
  "unlocked (m s_init)
   \<and> ByName (entry_value_params ''first'' ''hello'') ''key'' = ''first''
   \<and> ByName (entry_value_params ''first'' ''hello'') ''value'' = ''hello''
   \<and> \<not> writes_key ''first''
         (CallUpdate (put_req ''/entry/second/hi'') (entry_value_params ''second'' ''hi''))
   \<and> \<not> writes_key ''first'' (CallShow (get_req ''/list'') [])
   \<and> ByName (entry_params ''first'') ''key'' = ''first''
   \<and> ''first'' \<noteq> []
   \<and> (\<exists>bs st'.
         serve_all
           ([CallUpdate (put_req ''/entry/first/old'') (entry_value_params ''first'' ''old'')]
            @ CallUpdate (put_req ''/entry/first/hello'') (entry_value_params ''first'' ''hello'')
            # [CallUpdate (put_req ''/entry/second/hi'') (entry_value_params ''second'' ''hi''),
               CallShow (get_req ''/list'') []]) s_init = Inr (bs, st')
         \<and> fmlookup (data st') ''first'' = Some ''hello''
         \<and> show_handler [] (get_req ''/entry/first'') (entry_params ''first'') st'
             = Inr (''Read entry: s.data[first] = hello'', st'))"
proof -
  let ?later = "[CallUpdate (put_req ''/entry/second/hi'') (entry_value_params ''second'' ''hi''),
                 CallShow (get_req ''/list'') []]"
  have h1: "unlocked (m s_init)" by (simp add: s_init_def unlocked_def)
  have h2: "ByName (entry_value_params ''first'' ''hello'') ''key'' = ''first''" by simp
  have h3: "ByName (entry_value_params ''first'' ''hello'') ''value'' = ''hello''" by simp
  have h4: "\<forall>c \<in> set ?later. \<not> writes_key ''first'' c" by simp
  have h5: "ByName (entry_params ''first'') ''key'' = ''first''" by simp
  have h6: "''first'' \<noteq> []" by simp
  from update_then_show_reads_back [OF h1 h2 h3 h4 h5 h6,
      of "[CallUpdate (put_req ''/entry/first/old'') (entry_value_params ''first'' ''old'')]"
         "put_req ''/entry/first/hello''" "[]" "get_req ''/entry/first''"]
  obtain bs st' where
    "serve_all
       ([CallUpdate (put_req ''/entry/first/old'') (entry_value_params ''first'' ''old'')]
        @ CallUpdate (put_req ''/entry/first/hello'') (entry_value_params ''first'' ''hello'')
        # ?later) s_init = Inr (bs, st')"
    and "fmlookup (data st') ''first'' = Some ''hello''"
    and "show_handler [] (get_req ''/entry/first'') (entry_params ''first'') st'
           = Inr (''Read entry: s.data[first] = hello'', st')"
    by auto
  with h1 h2 h3 h4 h5 h6 show ?thesis by auto
qed

subsection \<open>The body of the entry response\<close>

text \<open>
  After \<^verbatim>\<open>update("first", "hello")\<close> on the fresh store, \<^verbatim>\<open>show("first")\<close> of \<^verbatim>\<open>rest.go\<close>
  writes a body that names the map as \<^verbatim>\<open>s.data\<close>, which is not the body
  \<^verbatim>\<open>Read entry: data[first] = hello\<close>.
\<close>

theorem show_entry_body_counterexample:
  "serve_all [CallUpdate (put_req ''/entry/first/hello'') (entry_value_params ''first'' ''hello''),
              CallShow (get_req ''/entry/first'') (entry_params ''first'')] s_init
     = Inr ([''Updated: s.data[first] = hello'', ''Read entry: s.data[first] = hello''],
            \<lparr>data = fmupd ''first'' ''hello'' fmempty, m = \<lparr>readers = 0, writer = False\<rparr>\<rparr>)
   \<and> ''Read entry: s.data[first] = hello'' \<noteq> ''Read entry: data[first] = hello''"
  by code_simp

text \<open>
  C2. For a key \<open>k\<close> that is not empty and stored with the value \<open>v\<close>, \<^verbatim>\<open>show\<close> of
  \<^verbatim>\<open>rest.go\<close> writes exactly \<^verbatim>\<open>Read entry: s.data[k] = v\<close> and leaves the store as it
  was; the handler of the version without a lock writes exactly
  \<^verbatim>\<open>Read entry: data[k] = v\<close>.
\<close>

theorem show_entry_body:
  assumes "\<not> writer (m st)"
    and "ByName p ''key'' = k"
    and "k \<noteq> []"
    and "fmlookup (data st) k = Some v"
  shows "show_handler w r p st = Inr (w @ ''Read entry: s.data['' @ k @ ''] = '' @ v, st)
         \<and> show_handler_part0 w r p (data st)
             = (w @ ''Read entry: data['' @ k @ ''] = '' @ v, data st)"
  using assms
  by (simp add: show_handler_result show_handler_part0_def Fprintf_def index_def)

theorem show_entry_body_witness:
  "\<not> writer (m \<lparr>data = fmupd ''first'' ''hello'' fmempty, m = \<lparr>readers = 0, writer = False\<rparr>\<rparr>)
   \<and> ByName (entry_params ''first'') ''key'' = ''first''
   \<and> ''first'' \<noteq> []
   \<and> fmlookup (data \<lparr>data = fmupd ''first'' ''hello'' fmempty, m = \<lparr>readers = 0, writer = False\<rparr>\<rparr>)
        ''first'' = Some ''hello''
   \<and> show_handler [] (get_req ''/entry/first'') (entry_params ''first'')
        \<lparr>data = fmupd ''first'' ''hello'' fmempty, m = \<lparr>readers = 0, writer = False\<rparr>\<rparr>
       = Inr (''Read entry: s.data[first] = hello'',
              \<lparr>data = fmupd ''first'' ''hello'' fmempty, m = \<lparr>readers = 0, writer = False\<rparr>\<rparr>)
   \<and> show_handler_part0 [] (get_req ''/entry/first'') (entry_params ''first'')
        (fmupd ''first'' ''hello'' fmempty)
       = (''Read entry: data[first] = hello'', fmupd ''first'' ''hello'' fmempty)"
  using show_entry_body [of "\<lparr>data = fmupd ''first'' ''hello'' fmempty, m = \<lparr>readers = 0, writer = False\<rparr>\<rparr>"
      "entry_params ''first''" "''first''" "''hello''" "[]" "get_req ''/entry/first''"]
  by simp

subsection \<open>A key that was never written\<close>

text \<open>
  On the fresh store nothing was written, the empty key included; \<^verbatim>\<open>show\<close> with the
  empty key answers with the listing, not with an entry line that has an empty value.
\<close>

theorem show_unwritten_key_counterexample:
  "ByName [] ''key'' = []
   \<and> show_handler [] (get_req ''/list'') [] s_init = Inr (''Read list: map[]'', s_init)
   \<and> ''Read list: map[]'' \<noteq> ''Read entry: s.data[] = ''
   \<and> ''Read list: map[]'' \<noteq> ''Read entry: data[] = ''"
  by code_simp

text \<open>
  C3. Let \<open>k\<close> be a key that is not empty, absent from a store whose lock is free, and
  let a sequence of calls be served of which none updates \<open>k\<close>. The sequence runs to its
  end, \<open>k\<close> is still absent, and \<^verbatim>\<open>show(k)\<close> returns without a fault the entry line with
  an empty value. The body is the same when \<open>k\<close> is stored with the empty string: the
  response does not tell an absent key from an empty value. The same holds for the
  handler of the version without a lock, with its own wording of the line.
\<close>

theorem show_unwritten_key:
  assumes "unlocked (m st)"
    and "fmlookup (data st) k = None"
    and "\<forall>c \<in> set cs. \<not> writes_key k c"
    and "ByName p ''key'' = k"
    and "k \<noteq> []"
  shows "\<exists>bs st'.
           serve_all cs st = Inr (bs, st')
           \<and> fmlookup (data st') k = None
           \<and> show_handler w r p st' = Inr (w @ ''Read entry: s.data['' @ k @ ''] = '', st')
           \<and> show_handler w r p (st'\<lparr>data := fmupd k [] (data st')\<rparr>)
               = Inr (w @ ''Read entry: s.data['' @ k @ ''] = '',
                      st'\<lparr>data := fmupd k [] (data st')\<rparr>)
           \<and> fst (show_handler_part0 w r p (data st')) = w @ ''Read entry: data['' @ k @ ''] = ''
           \<and> fst (show_handler_part0 w r p (fmupd k [] (data st')))
               = w @ ''Read entry: data['' @ k @ ''] = ''"
proof -
  from serve_all_unlocked [OF assms(1), of cs]
  obtain bs st' where run: "serve_all cs st = Inr (bs, st')" and mm: "m st' = m st"
    by blast
  have "fmlookup (data st') k = fmlookup (data st) k"
    using run assms(3) by (rule serve_all_lookup_other)
  with assms(2) have absent: "fmlookup (data st') k = None" by simp
  from assms(1) mm have nw: "\<not> writer (m st')" by (simp add: unlocked_def)
  have s1: "show_handler w r p st' = Inr (w @ ''Read entry: s.data['' @ k @ ''] = '', st')"
    using show_handler_result [OF nw, of w r p] assms(4,5) absent by (simp add: index_def)
  from nw have nw': "\<not> writer (m (st'\<lparr>data := fmupd k [] (data st')\<rparr>))" by simp
  have s2: "show_handler w r p (st'\<lparr>data := fmupd k [] (data st')\<rparr>)
               = Inr (w @ ''Read entry: s.data['' @ k @ ''] = '',
                      st'\<lparr>data := fmupd k [] (data st')\<rparr>)"
    using show_handler_result [OF nw', of w r p] assms(4,5) by (simp add: index_def)
  have s3: "fst (show_handler_part0 w r p (data st')) = w @ ''Read entry: data['' @ k @ ''] = ''"
    using assms(4,5) absent by (simp add: show_handler_part0_def Fprintf_def index_def)
  have s4: "fst (show_handler_part0 w r p (fmupd k [] (data st')))
               = w @ ''Read entry: data['' @ k @ ''] = ''"
    using assms(4,5) by (simp add: show_handler_part0_def Fprintf_def index_def)
  from run absent s1 s2 s3 s4 show ?thesis by blast
qed

theorem show_unwritten_key_witness:
  "unlocked (m s_init)
   \<and> fmlookup (data s_init) ''third'' = None
   \<and> \<not> writes_key ''third''
         (CallUpdate (put_req ''/entry/first/hello'') (entry_value_params ''first'' ''hello''))
   \<and> \<not> writes_key ''third'' (CallShow (get_req ''/list'') [])
   \<and> ByName (entry_params ''third'') ''key'' = ''third''
   \<and> ''third'' \<noteq> []
   \<and> (\<exists>bs st'.
         serve_all [CallUpdate (put_req ''/entry/first/hello'') (entry_value_params ''first'' ''hello''),
                    CallShow (get_req ''/list'') []] s_init = Inr (bs, st')
         \<and> fmlookup (data st') ''third'' = None
         \<and> show_handler [] (get_req ''/entry/third'') (entry_params ''third'') st'
             = Inr (''Read entry: s.data[third] = '', st')
         \<and> show_handler [] (get_req ''/entry/third'') (entry_params ''third'')
               (st'\<lparr>data := fmupd ''third'' [] (data st')\<rparr>)
             = Inr (''Read entry: s.data[third] = '', st'\<lparr>data := fmupd ''third'' [] (data st')\<rparr>)
         \<and> fst (show_handler_part0 [] (get_req ''/entry/third'') (entry_params ''third'') (data st'))
             = ''Read entry: data[third] = ''
         \<and> fst (show_handler_part0 [] (get_req ''/entry/third'') (entry_params ''third'')
                  (fmupd ''third'' [] (data st')))
             = ''Read entry: data[third] = '')"
proof -
  let ?cs = "[CallUpdate (put_req ''/entry/first/hello'') (entry_value_params ''first'' ''hello''),
              CallShow (get_req ''/list'') []]"
  have h1: "unlocked (m s_init)" by (simp add: s_init_def unlocked_def)
  have h2: "fmlookup (data s_init) ''third'' = None" by (simp add: s_init_def)
  have h3: "\<forall>c \<in> set ?cs. \<not> writes_key ''third'' c" by simp
  have h4: "ByName (entry_params ''third'') ''key'' = ''third''" by simp
  have h5: "''third'' \<noteq> []" by simp
  from show_unwritten_key [OF h1 h2 h3 h4 h5, of "[]" "get_req ''/entry/third''"]
  obtain bs st' where
    "serve_all ?cs s_init = Inr (bs, st')"
    and "fmlookup (data st') ''third'' = None"
    and "show_handler [] (get_req ''/entry/third'') (entry_params ''third'') st'
           = Inr (''Read entry: s.data[third] = '', st')"
    and "show_handler [] (get_req ''/entry/third'') (entry_params ''third'')
               (st'\<lparr>data := fmupd ''third'' [] (data st')\<rparr>)
             = Inr (''Read entry: s.data[third] = '', st'\<lparr>data := fmupd ''third'' [] (data st')\<rparr>)"
    and "fst (show_handler_part0 [] (get_req ''/entry/third'') (entry_params ''third'') (data st'))
             = ''Read entry: data[third] = ''"
    and "fst (show_handler_part0 [] (get_req ''/entry/third'') (entry_params ''third'')
                  (fmupd ''third'' [] (data st')))
             = ''Read entry: data[third] = ''"
    by auto
  with h1 h2 h3 h4 h5 show ?thesis by auto
qed

subsection \<open>What update writes and answers\<close>

text \<open>
  \<^verbatim>\<open>update("first", "hello")\<close> of \<^verbatim>\<open>rest.go\<close> on the fresh store answers with a body
  that names the map as \<^verbatim>\<open>s.data\<close>, which is not the body
  \<^verbatim>\<open>Updated: data[first] = hello\<close>.
\<close>

theorem update_body_counterexample:
  "update [] (put_req ''/entry/first/hello'') (entry_value_params ''first'' ''hello'') s_init
     = Inr (''Updated: s.data[first] = hello'',
            \<lparr>data = fmupd ''first'' ''hello'' fmempty, m = \<lparr>readers = 0, writer = False\<rparr>\<rparr>)
   \<and> ''Updated: s.data[first] = hello'' \<noteq> ''Updated: data[first] = hello''"
  by code_simp

text \<open>
  C4. For all strings \<open>k\<close> and \<open>v\<close>, the empty string included, \<^verbatim>\<open>update(k, v)\<close> of
  \<^verbatim>\<open>rest.go\<close> checks nothing about them: called with the lock free it returns without a
  fault, the store differs from the one before only in that \<open>k\<close> now maps to \<open>v\<close>
  (a new entry or an overwritten one), and the body is exactly
  \<^verbatim>\<open>Updated: s.data[k] = v\<close>. The handler of the version without a lock writes the same
  entry and answers \<^verbatim>\<open>Updated: data[k] = v\<close>.
\<close>

theorem update_writes_and_answers:
  assumes "unlocked (m st)"
    and "ByName p ''key'' = k"
    and "ByName p ''value'' = v"
  shows "update w r p st
           = Inr (w @ ''Updated: s.data['' @ k @ ''] = '' @ v, st\<lparr>data := fmupd k v (data st)\<rparr>)
         \<and> fmlookup (data (st\<lparr>data := fmupd k v (data st)\<rparr>)) k = Some v
         \<and> update_part0 w r p d = (w @ ''Updated: data['' @ k @ ''] = '' @ v, fmupd k v d)
         \<and> fmlookup (fmupd k v d) k = Some v"
  using assms
  by (simp add: update_result update_part0_def Fprintf_def index_def Let_def)

theorem update_writes_and_answers_witness:
  "unlocked (m (s_init\<lparr>data := fmupd [] ''old'' fmempty\<rparr>))
   \<and> ByName (entry_value_params [] []) ''key'' = []
   \<and> ByName (entry_value_params [] []) ''value'' = []
   \<and> update [] (put_req ''/entry//'') (entry_value_params [] [])
        (s_init\<lparr>data := fmupd [] ''old'' fmempty\<rparr>)
       = Inr (''Updated: s.data[] = '', s_init\<lparr>data := fmupd [] [] fmempty\<rparr>)
   \<and> fmlookup (data (s_init\<lparr>data := fmupd [] [] fmempty\<rparr>)) [] = Some []
   \<and> update_part0 [] (put_req ''/entry//'') (entry_value_params [] []) fmempty
       = (''Updated: data[] = '', fmupd [] [] fmempty)"
  using update_writes_and_answers [of "s_init\<lparr>data := fmupd [] ''old'' fmempty\<rparr>"
      "entry_value_params [] []" "[]" "[]" "[]" "put_req ''/entry//''" fmempty]
  by (simp add: s_init_def unlocked_def)

subsection \<open>The listing\<close>

text \<open>
  C5. For every store, \<^verbatim>\<open>show\<close> with an empty key prints the whole store:
  when no writer holds the lock it returns the body \<^verbatim>\<open>Read list:\<close> followed by the
  map as \<^verbatim>\<open>fmt\<close> prints it, and every entry of the store stands in that text as key,
  colon, value. In particular, after the writes \<open>a:va\<close> and \<open>b:vb\<close> of two different
  keys, followed by any calls that update neither, the body contains both entries. The
  handler of the version without a lock prints the same listing.
\<close>

theorem list_renders_whole_store:
  assumes "\<not> writer (m st0)"
    and "ByName q ''key'' = []"
    and "unlocked (m st)"
    and "ByName pa ''key'' = a" and "ByName pa ''value'' = va"
    and "ByName pb ''key'' = b" and "ByName pb ''value'' = vb"
    and "a \<noteq> b"
    and "\<forall>c \<in> set cs. \<not> writes_key a c \<and> \<not> writes_key b c"
  shows "show_handler w r q st0 = Inr (w @ ''Read list: '' @ fmt_map (data st0), st0)
         \<and> show_handler_part0 w r q (data st0)
             = (w @ ''Read list: '' @ fmt_map (data st0), data st0)
         \<and> (\<forall>k v. fmlookup (data st0) k = Some v
                \<longrightarrow> sublist (k @ '':'' @ v) (fmt_map (data st0)))
         \<and> (\<exists>bs st'.
               serve_all (CallUpdate ra pa # CallUpdate rb pb # cs) st = Inr (bs, st')
               \<and> show_handler w r q st' = Inr (w @ ''Read list: '' @ fmt_map (data st'), st')
               \<and> sublist (a @ '':'' @ va) (fmt_map (data st'))
               \<and> sublist (b @ '':'' @ vb) (fmt_map (data st')))"
proof -
  have listing: "show_handler w r q s' = Inr (w @ ''Read list: '' @ fmt_map (data s'), s')"
    if "\<not> writer (m s')" for s'
    using show_handler_result [OF that, of w r q] assms(2) by simp
  have g1: "show_handler w r q st0 = Inr (w @ ''Read list: '' @ fmt_map (data st0), st0)"
    using assms(1) by (rule listing)
  have g2: "show_handler_part0 w r q (data st0)
              = (w @ ''Read list: '' @ fmt_map (data st0), data st0)"
    using assms(2) by (simp add: show_handler_part0_def Fprintf_def)
  have g3: "\<forall>k v. fmlookup (data st0) k = Some v
              \<longrightarrow> sublist (k @ '':'' @ v) (fmt_map (data st0))"
    by (blast intro: entry_in_fmt_map)
  let ?calls = "CallUpdate ra pa # CallUpdate rb pb # cs"
  from serve_all_unlocked [OF assms(3), of ?calls]
  obtain bs st' where run: "serve_all ?calls st = Inr (bs, st')" and mm: "m st' = m st"
    by blast
  define st1 where "st1 = st\<lparr>data := fmupd a va (data st)\<rparr>"
  define st2 where "st2 = st1\<lparr>data := fmupd b vb (data st1)\<rparr>"
  have u1: "unlocked (m st1)" using assms(3) by (simp add: st1_def)
  have c1: "serve (CallUpdate ra pa) st = Inr (''Updated: s.data['' @ a @ ''] = '' @ va, st1)"
    using update_result [OF assms(3), of "[]" ra pa] assms(4,5) by (simp add: st1_def)
  have c2: "serve (CallUpdate rb pb) st1 = Inr (''Updated: s.data['' @ b @ ''] = '' @ vb, st2)"
    using update_result [OF u1, of "[]" rb pb] assms(6,7) by (simp add: st2_def)
  from run c1 c2 obtain bs3 where rest: "serve_all cs st2 = Inr (bs3, st')"
    by (auto split: sum.splits prod.splits)
  from assms(9) have na: "\<forall>c \<in> set cs. \<not> writes_key a c"
    and nb: "\<forall>c \<in> set cs. \<not> writes_key b c"
    by simp_all
  have "fmlookup (data st') a = fmlookup (data st2) a"
    using rest na by (rule serve_all_lookup_other)
  then have la: "fmlookup (data st') a = Some va"
    using assms(8) by (simp add: st2_def st1_def)
  have "fmlookup (data st') b = fmlookup (data st2) b"
    using rest nb by (rule serve_all_lookup_other)
  then have lb: "fmlookup (data st') b = Some vb" by (simp add: st2_def)
  from assms(3) mm have "\<not> writer (m st')" by (simp add: unlocked_def)
  then have s1: "show_handler w r q st' = Inr (w @ ''Read list: '' @ fmt_map (data st'), st')"
    by (rule listing)
  from la have ea: "sublist (a @ '':'' @ va) (fmt_map (data st'))" by (rule entry_in_fmt_map)
  from lb have eb: "sublist (b @ '':'' @ vb) (fmt_map (data st'))" by (rule entry_in_fmt_map)
  from run s1 ea eb have g4: "\<exists>bs st'.
               serve_all ?calls st = Inr (bs, st')
               \<and> show_handler w r q st' = Inr (w @ ''Read list: '' @ fmt_map (data st'), st')
               \<and> sublist (a @ '':'' @ va) (fmt_map (data st'))
               \<and> sublist (b @ '':'' @ vb) (fmt_map (data st'))"
    by blast
  from g1 g2 g3 g4 show ?thesis by blast
qed

theorem list_renders_whole_store_witness:
  "\<not> writer (m \<lparr>data = fmupd ''z'' ''26'' fmempty, m = \<lparr>readers = 1, writer = False\<rparr>\<rparr>)
   \<and> ByName [] ''key'' = []
   \<and> unlocked (m s_init)
   \<and> ByName (entry_value_params ''a'' ''1'') ''key'' = ''a''
   \<and> ByName (entry_value_params ''a'' ''1'') ''value'' = ''1''
   \<and> ByName (entry_value_params ''b'' ''2'') ''key'' = ''b''
   \<and> ByName (entry_value_params ''b'' ''2'') ''value'' = ''2''
   \<and> ''a'' \<noteq> ''b''
   \<and> \<not> writes_key ''a'' (CallShow (get_req ''/entry/a'') (entry_params ''a''))
   \<and> \<not> writes_key ''b'' (CallShow (get_req ''/entry/a'') (entry_params ''a''))
   \<and> show_handler [] (get_req ''/list'') []
         \<lparr>data = fmupd ''z'' ''26'' fmempty, m = \<lparr>readers = 1, writer = False\<rparr>\<rparr>
       = Inr (''Read list: map[z:26]'',
              \<lparr>data = fmupd ''z'' ''26'' fmempty, m = \<lparr>readers = 1, writer = False\<rparr>\<rparr>)
   \<and> show_handler_part0 [] (get_req ''/list'') [] (fmupd ''z'' ''26'' fmempty)
       = (''Read list: map[z:26]'', fmupd ''z'' ''26'' fmempty)
   \<and> (\<exists>bs st'.
         serve_all [CallUpdate (put_req ''/entry/a/1'') (entry_value_params ''a'' ''1''),
                    CallUpdate (put_req ''/entry/b/2'') (entry_value_params ''b'' ''2''),
                    CallShow (get_req ''/entry/a'') (entry_params ''a'')] s_init = Inr (bs, st')
         \<and> show_handler [] (get_req ''/list'') [] st'
             = Inr (''Read list: '' @ fmt_map (data st'), st')
         \<and> sublist ''a:1'' (fmt_map (data st'))
         \<and> sublist ''b:2'' (fmt_map (data st')))"
proof -
  let ?st0 = "\<lparr>data = fmupd ''z'' ''26'' fmempty, m = \<lparr>readers = 1, writer = False\<rparr>\<rparr>"
  let ?cs = "[CallShow (get_req ''/entry/a'') (entry_params ''a'')]"
  have h0: "\<not> writer (m ?st0)" by simp
  have h8: "ByName [] ''key'' = []" by simp
  have h1: "unlocked (m s_init)" by (simp add: s_init_def unlocked_def)
  have h2: "ByName (entry_value_params ''a'' ''1'') ''key'' = ''a''" by simp
  have h3: "ByName (entry_value_params ''a'' ''1'') ''value'' = ''1''" by simp
  have h4: "ByName (entry_value_params ''b'' ''2'') ''key'' = ''b''" by simp
  have h5: "ByName (entry_value_params ''b'' ''2'') ''value'' = ''2''" by simp
  have h6: "''a'' \<noteq> ''b''" by simp
  have h7: "\<forall>c \<in> set ?cs. \<not> writes_key ''a'' c \<and> \<not> writes_key ''b'' c" by simp
  have z: "fmt_map (fmupd ''z'' ''26'' fmempty) = ''map[z:26]''" by code_simp
  note inst = list_renders_whole_store [OF h0 h8 h1 h2 h3 h4 h5 h6 h7,
      of "[]" "get_req ''/list''" "put_req ''/entry/a/1''" "put_req ''/entry/b/2''"]
  from inst z have
    "show_handler [] (get_req ''/list'') [] ?st0 = Inr (''Read list: map[z:26]'', ?st0)"
    and "show_handler_part0 [] (get_req ''/list'') [] (fmupd ''z'' ''26'' fmempty)
           = (''Read list: map[z:26]'', fmupd ''z'' ''26'' fmempty)"
    by simp_all
  moreover from inst obtain bs st' where
    "serve_all [CallUpdate (put_req ''/entry/a/1'') (entry_value_params ''a'' ''1''),
                CallUpdate (put_req ''/entry/b/2'') (entry_value_params ''b'' ''2''),
                CallShow (get_req ''/entry/a'') (entry_params ''a'')] s_init = Inr (bs, st')"
    and "show_handler [] (get_req ''/list'') [] st'
           = Inr (''Read list: '' @ fmt_map (data st'), st')"
    and "sublist ''a:1'' (fmt_map (data st'))"
    and "sublist ''b:2'' (fmt_map (data st'))"
    by auto
  ultimately show ?thesis using h0 h1 h2 h3 h4 h5 h6 h7 h8 by auto
qed

subsection \<open>Updating twice\<close>

text \<open>
  C6. \<^verbatim>\<open>update\<close> is idempotent: a second call with the same parameters, whatever its
  request and response writer, leaves the store exactly as the first call left it, the
  lock included, and answers with the same body; two updates served in a row end in the
  same store as one.
\<close>

theorem update_twice_same_store:
  assumes "unlocked (m st)"
  shows "\<exists>b st1.
           update w r p st = Inr (w @ b, st1)
           \<and> update w' r' p st1 = Inr (w' @ b, st1)
           \<and> serve_all [CallUpdate r p] st = Inr ([b], st1)
           \<and> serve_all [CallUpdate r p, CallUpdate r' p] st = Inr ([b, b], st1)"
proof -
  define k where "k = ByName p ''key''"
  define v where "v = ByName p ''value''"
  define b where "b = ''Updated: s.data['' @ k @ ''] = '' @ v"
  define st1 where "st1 = st\<lparr>data := fmupd k v (data st)\<rparr>"
  have u1: "unlocked (m st1)" using assms by (simp add: st1_def)
  have again: "st1\<lparr>data := fmupd k v (data st1)\<rparr> = st1" by (simp add: st1_def)
  have first: "update w r p st = Inr (w @ b, st1)" for w r
    using update_result [OF assms, of w r p] by (simp add: b_def st1_def k_def v_def)
  have second: "update w r p st1 = Inr (w @ b, st1)" for w r
    using update_result [OF u1, of w r p] again by (simp add: b_def k_def v_def)
  have "serve_all [CallUpdate r p] st = Inr ([b], st1)"
    using first [of "[]" r] by simp
  moreover have "serve_all [CallUpdate r p, CallUpdate r' p] st = Inr ([b, b], st1)"
    using first [of "[]" r] second [of "[]" r'] by simp
  ultimately show ?thesis using first [of w r] second [of w' r'] by blast
qed

theorem update_twice_same_store_witness:
  "unlocked (m s_init)
   \<and> (\<exists>b st1.
         update [] (put_req ''/entry/first/hello'') (entry_value_params ''first'' ''hello'') s_init
           = Inr ([] @ b, st1)
         \<and> update ''again: '' (put_req ''/entry/first/hello?retry'')
               (entry_value_params ''first'' ''hello'') st1
           = Inr (''again: '' @ b, st1)
         \<and> serve_all [CallUpdate (put_req ''/entry/first/hello'')
                         (entry_value_params ''first'' ''hello'')] s_init = Inr ([b], st1)
         \<and> serve_all [CallUpdate (put_req ''/entry/first/hello'')
                         (entry_value_params ''first'' ''hello''),
                       CallUpdate (put_req ''/entry/first/hello?retry'')
                         (entry_value_params ''first'' ''hello'')] s_init = Inr ([b, b], st1))"
proof -
  have h: "unlocked (m s_init)" by (simp add: s_init_def unlocked_def)
  from update_twice_same_store [OF h] h show ?thesis by blast
qed

subsection \<open>Show does not change the store\<close>

text \<open>
  C7. For every key, the empty key of the listing included, and every store,
  \<^verbatim>\<open>show\<close> leaves the store as it found it. When no writer holds the lock it returns,
  with the store unchanged, the lock included: the read lock it took is released again.
  Whenever it returns at all, the store it returns is the store it was given. The handler
  of the version without a lock returns its map unchanged. The handlers are functions of
  the response writer, the request, the parameters and the store, and of nothing else.
\<close>

theorem show_leaves_store_unchanged:
  assumes "\<not> writer (m st)"
  shows "(\<exists>b. show_handler w r p st = Inr (w @ b, st))
         \<and> (\<forall>w' st'. show_handler w r p st0 = Inr (w', st') \<longrightarrow> st' = st0)
         \<and> snd (show_handler_part0 w r p d) = d"
proof -
  have a: "\<exists>b. show_handler w r p st = Inr (w @ b, st)"
    using show_handler_result [OF assms, of w r p] by blast
  have b: "\<forall>w' st'. show_handler w r p st0 = Inr (w', st') \<longrightarrow> st' = st0"
  proof (cases "writer (m st0)")
    case True
    then show ?thesis by (simp add: show_handler_waits)
  next
    case False
    then show ?thesis by (simp add: show_handler_result)
  qed
  have c: "snd (show_handler_part0 w r p d) = d"
    by (simp add: show_handler_part0_def Let_def)
  from a b c show ?thesis by blast
qed

theorem show_leaves_store_unchanged_witness:
  "\<not> writer (m \<lparr>data = fmupd ''a'' ''1'' fmempty, m = \<lparr>readers = 2, writer = False\<rparr>\<rparr>)
   \<and> show_handler [] (get_req ''/list'') []
        \<lparr>data = fmupd ''a'' ''1'' fmempty, m = \<lparr>readers = 2, writer = False\<rparr>\<rparr>
       = Inr (''Read list: map[a:1]'',
              \<lparr>data = fmupd ''a'' ''1'' fmempty, m = \<lparr>readers = 2, writer = False\<rparr>\<rparr>)
   \<and> (\<exists>b. show_handler [] (get_req ''/list'') []
              \<lparr>data = fmupd ''a'' ''1'' fmempty, m = \<lparr>readers = 2, writer = False\<rparr>\<rparr>
            = Inr ([] @ b, \<lparr>data = fmupd ''a'' ''1'' fmempty, m = \<lparr>readers = 2, writer = False\<rparr>\<rparr>))
   \<and> snd (show_handler_part0 [] (get_req ''/list'') [] (fmupd ''a'' ''1'' fmempty))
       = fmupd ''a'' ''1'' fmempty"
proof -
  let ?st = "\<lparr>data = fmupd ''a'' ''1'' fmempty, m = \<lparr>readers = 2, writer = False\<rparr>\<rparr>"
  have h: "\<not> writer (m ?st)" by simp
  have e: "show_handler [] (get_req ''/list'') [] ?st = Inr (''Read list: map[a:1]'', ?st)"
    by code_simp
  from show_leaves_store_unchanged [OF h, of "[]" "get_req ''/list''" "[]" ?st "fmupd ''a'' ''1'' fmempty"]
    h e show ?thesis by blast
qed

subsection \<open>Concurrent updates\<close>

text \<open>
  A writer has taken the lock while a reader asks for it: the reader waits, so a
  schedule that lets it move next is no execution.
\<close>

lemma reader_waits_for_writer:
  "run [0, 2, 0, 0, 0, 1, 0, 1, 1, 1, 2, 1, 2, 2]
     (spawn [CallUpdate (put_req ''/entry/a/1'') (entry_value_params ''a'' ''1''),
             CallUpdate (put_req ''/entry/b/2'') (entry_value_params ''b'' ''2''),
             CallShow (get_req ''/list'') []]) s_init = None"
  by code_simp



subsection \<open>Update changes one entry\<close>

text \<open>
  C9. \<^verbatim>\<open>update(k, v)\<close> changes at most the entry of \<open>k\<close>: every other key maps to the
  same value after the call as before it, or is absent as before. This holds for the
  handler of \<^verbatim>\<open>rest.go\<close>, which returns when the lock is free, and for the handler of
  the version without a lock.
\<close>

theorem update_changes_one_key:
  assumes "unlocked (m st)"
    and "k' \<noteq> ByName p ''key''"
  shows "\<exists>b st'.
           update w r p st = Inr (b, st')
           \<and> fmlookup (data st') k' = fmlookup (data st) k'
           \<and> fmlookup (snd (update_part0 w r p d)) k' = fmlookup d k'"
  using assms by (simp add: update_result update_part0_def Let_def)

theorem update_changes_one_key_witness:
  "unlocked (m (s_init\<lparr>data := fmupd ''second'' ''hi'' fmempty\<rparr>))
   \<and> ''second'' \<noteq> ByName (entry_value_params ''first'' ''hello'') ''key''
   \<and> ''third'' \<noteq> ByName (entry_value_params ''first'' ''hello'') ''key''
   \<and> (\<exists>b st'.
         update [] (put_req ''/entry/first/hello'') (entry_value_params ''first'' ''hello'')
           (s_init\<lparr>data := fmupd ''second'' ''hi'' fmempty\<rparr>) = Inr (b, st')
         \<and> fmlookup (data st') ''second'' = Some ''hi''
         \<and> fmlookup (data st') ''third'' = None
         \<and> fmlookup (snd (update_part0 [] (put_req ''/entry/first/hello'')
                            (entry_value_params ''first'' ''hello'')
                            (fmupd ''second'' ''hi'' fmempty))) ''second'' = Some ''hi'')"
proof -
  let ?st = "s_init\<lparr>data := fmupd ''second'' ''hi'' fmempty\<rparr>"
  let ?p = "entry_value_params ''first'' ''hello''"
  have h1: "unlocked (m ?st)" by (simp add: s_init_def unlocked_def)
  have h2: "''second'' \<noteq> ByName ?p ''key''" by simp
  have h3: "''third'' \<noteq> ByName ?p ''key''" by simp
  from update_changes_one_key [OF h1 h2, of "[]" "put_req ''/entry/first/hello''"
      "fmupd ''second'' ''hi'' fmempty"]
  obtain b st' where
    u: "update [] (put_req ''/entry/first/hello'') ?p ?st = Inr (b, st')"
    and s: "fmlookup (data st') ''second'' = fmlookup (data ?st) ''second''"
    and q: "fmlookup (snd (update_part0 [] (put_req ''/entry/first/hello'') ?p
              (fmupd ''second'' ''hi'' fmempty))) ''second''
            = fmlookup (fmupd ''second'' ''hi'' fmempty) ''second''"
    by blast
  from update_changes_one_key [OF h1 h3, of "[]" "put_req ''/entry/first/hello''" fmempty] u
  have t: "fmlookup (data st') ''third'' = fmlookup (data ?st) ''third''" by auto
  from s have s': "fmlookup (data st') ''second'' = Some ''hi''" by simp
  from t have t': "fmlookup (data st') ''third'' = None" by simp
  from q have q': "fmlookup (snd (update_part0 [] (put_req ''/entry/first/hello'') ?p
              (fmupd ''second'' ''hi'' fmempty))) ''second'' = Some ''hi''" by simp
  from h1 h2 h3 u s' t' q' show ?thesis by blast
qed

subsection \<open>The request is ignored\<close>

text \<open>
  C10. Neither handler reads the request: two calls of \<^verbatim>\<open>show\<close>, or of \<^verbatim>\<open>update\<close>,
  with the same response writer, the same parameters and the same store, and with any
  two requests, give the same result, that is the same body and the same store (or the
  same fault). This holds for the handlers of both versions.
\<close>

theorem handlers_ignore_request:
  "show_handler w r1 p st = show_handler w r2 p st
   \<and> update w r1 p st = update w r2 p st
   \<and> show_handler_part0 w r1 p d = show_handler_part0 w r2 p d
   \<and> update_part0 w r1 p d = update_part0 w r2 p d"
  by (simp add: show_handler_def update_def show_handler_part0_def update_part0_def)

theorem handlers_ignore_request_witness:
  "get_req ''/entry/first'' \<noteq> put_req ''/other''
   \<and> show_handler [] (get_req ''/entry/first'') (entry_params ''first'') s_init
       = show_handler [] (put_req ''/other'') (entry_params ''first'') s_init
   \<and> update [] (get_req ''/entry/first'') (entry_value_params ''first'' ''hello'') s_init
       = update [] (put_req ''/other'') (entry_value_params ''first'' ''hello'') s_init
   \<and> show_handler_part0 [] (get_req ''/entry/first'') (entry_params ''first'') fmempty
       = show_handler_part0 [] (put_req ''/other'') (entry_params ''first'') fmempty
   \<and> update_part0 [] (get_req ''/entry/first'') (entry_value_params ''first'' ''hello'') fmempty
       = update_part0 [] (put_req ''/other'') (entry_value_params ''first'' ''hello'') fmempty"
proof -
  have "get_req ''/entry/first'' \<noteq> put_req ''/other''"
    by (simp add: get_req_def put_req_def)
  with handlers_ignore_request show ?thesis by blast
qed

end
